theory Spec2Isabelle
  imports Complex_Main "HOL-Library.Word"
begin

section \<open>Byte buffers\<close>

text \<open>
  A Node \<open>Buffer\<close> is a finite sequence of bytes. The source only reads its length, takes
  sub-ranges of it and concatenates buffers, so a buffer is a list of 8-bit words.
\<close>

type_synonym byte = "8 word"
type_synonym buffer = "byte list"

text \<open>
  \<open>Buffer.prototype.subarray(start, end)\<close> is a function of the runtime, not of the
  repository. It is modelled after the language standard: a negative index counts from the
  end, every index is clamped to \<open>[0, length]\<close>, a missing \<open>end\<close> is the length, and a
  range whose end is before its start is empty.
\<close>

definition rel_index :: "int \<Rightarrow> nat \<Rightarrow> nat" where
  "rel_index i len = (if i < 0 then nat (max (int len + i) 0) else min (nat i) len)"

definition subarray :: "buffer \<Rightarrow> int \<Rightarrow> int option \<Rightarrow> buffer" where
  "subarray buf start end_opt =
     (let len = length buf;
          b = rel_index start len;
          e = (case end_opt of None \<Rightarrow> len | Some i \<Rightarrow> rel_index i len)
      in take (e - b) (drop b buf))"

section \<open>The chunker: \<open>chunkStream\<close> (src/utils/stream.ts)\<close>

text \<open>
  The frame size \<open>chunkSize\<close> is a number of bytes and is modelled as an integer, of
  either sign; \<open>DEFAULT_CHUNK_SIZE\<close> is the value of the parameter when the caller
  gives none. The fragments of the source are buffers already (\<open>Buffer.from\<close> of a
  buffer is the buffer).
\<close>

definition DEFAULT_CHUNK_SIZE :: int where
  "DEFAULT_CHUNK_SIZE = 64 * 1024"

text \<open>
  \<open>merged\<close> of the source: the only pending buffer when there is exactly one, the
  concatenation of all pending buffers otherwise (\<open>Buffer.concat\<close> of no buffer is the
  empty buffer).
\<close>

definition merge_pending :: "buffer list \<Rightarrow> buffer" where
  "merge_pending pending = (if length pending = 1 then hd pending else concat pending)"

text \<open>
  The inner \<open>while (pendingBytes >= chunkSize)\<close> loop. The state of the loop is the
  pair \<open>pending\<close>, \<open>pendingBytes\<close>; the result is the list of frames yielded by the
  loop together with the state at its exit. The source has no bound on the number of
  iterations, so the loop is a partial function: the value \<open>None\<close> is a loop that never
  exits.
\<close>

partial_function (option) drain ::
  "int \<Rightarrow> buffer list \<Rightarrow> int \<Rightarrow> (buffer list \<times> buffer list \<times> int) option" where
  "drain chunkSize pending pendingBytes =
     (if pendingBytes \<ge> chunkSize then
        (let merged = merge_pending pending;
             frame = subarray merged 0 (Some chunkSize);
             remainder = subarray merged chunkSize None
         in Option.bind
              (if length remainder > 0
               then drain chunkSize [remainder] (int (length remainder))
               else drain chunkSize [] 0)
              (\<lambda>(frames, pending', pendingBytes'). Some (frame # frames, pending', pendingBytes')))
      else Some ([], pending, pendingBytes))"

declare drain.simps [code]

text \<open>
  The outer \<open>for await (const data of source)\<close> loop over a finite source that delivers
  the fragments of the list and then ends: each fragment is pushed on \<open>pending\<close>, its
  length is added to \<open>pendingBytes\<close>, and the inner loop runs.
\<close>

fun feed ::
  "int \<Rightarrow> buffer list \<Rightarrow> int \<Rightarrow> buffer list \<Rightarrow> (buffer list \<times> buffer list \<times> int) option" where
  "feed chunkSize pending pendingBytes [] = Some ([], pending, pendingBytes)"
| "feed chunkSize pending pendingBytes (buf # rest) =
     (case drain chunkSize (pending @ [buf]) (pendingBytes + int (length buf)) of
        None \<Rightarrow> None
      | Some (frames, pending', pendingBytes') \<Rightarrow>
          (case feed chunkSize pending' pendingBytes' rest of
             None \<Rightarrow> None
           | Some (frames', pending'', pendingBytes'') \<Rightarrow>
               Some (frames @ frames', pending'', pendingBytes'')))"

text \<open>
  The whole generator, run to its end: \<open>Some frames\<close> is a run that yields \<open>frames\<close> in
  this order and then returns, \<open>None\<close> is a run that never returns. The body of the
  source has no \<open>throw\<close>, and the source sequence is one that does not fail, so a run has
  no third outcome.
\<close>

definition chunkStream :: "buffer list \<Rightarrow> int \<Rightarrow> buffer list option" where
  "chunkStream source chunkSize =
     (case feed chunkSize [] 0 source of
        None \<Rightarrow> None
      | Some (frames, pending, pendingBytes) \<Rightarrow>
          Some (frames @ (if pendingBytes > 0 then [merge_pending pending] else [])))"

section \<open>The frame sender: \<open>sendStreamChunks\<close> (src/grpc/client.ts)\<close>

definition CHUNK_SIZE :: int where
  "CHUNK_SIZE = 64 * 1024"

text \<open>The message written on the call for one chunk of a file.\<close>

record upload_frame =
  chunk :: buffer
  filename :: string
  isLast :: bool

text \<open>
  The \<open>for await (const chunk of chunkStream(stream, CHUNK_SIZE))\<close> loop. Its state is
  \<open>prevChunk\<close> (\<open>None\<close> for \<open>null\<close>) and \<open>isFirst\<close>; the result is the list of the
  messages passed to \<open>call.write\<close>, in the order of the calls, with the state at the end
  of the loop. The call is a recorder: \<open>call.write\<close> neither fails nor changes the
  state of the sender.
\<close>

fun send_loop ::
  "string \<Rightarrow> buffer option \<Rightarrow> bool \<Rightarrow> buffer list \<Rightarrow> upload_frame list \<times> buffer option \<times> bool" where
  "send_loop fname prevChunk isFirst [] = ([], prevChunk, isFirst)"
| "send_loop fname prevChunk isFirst (c # rest) =
     (case prevChunk of
        None \<Rightarrow> send_loop fname (Some c) isFirst rest
      | Some prev \<Rightarrow>
          (case send_loop fname (Some c) False rest of
             (written, prevChunk', isFirst') \<Rightarrow>
               (\<lparr>chunk = prev, filename = (if isFirst then fname else ''''), isLast = False\<rparr> # written,
                prevChunk', isFirst')))"

text \<open>
  The whole of \<open>sendStreamChunks\<close>: the loop, then the write of the chunk held back, with
  \<open>isLast: true\<close>. The result is \<open>None\<close> when the chunker never returns.
\<close>

definition sendStreamChunks :: "buffer list \<Rightarrow> string \<Rightarrow> upload_frame list option" where
  "sendStreamChunks stream fname =
     (case chunkStream stream CHUNK_SIZE of
        None \<Rightarrow> None
      | Some chunks \<Rightarrow>
          (case send_loop fname None True chunks of
             (written, prevChunk, isFirst) \<Rightarrow>
               Some (written @
                 (case prevChunk of
                    None \<Rightarrow> []
                  | Some prev \<Rightarrow>
                      [\<lparr>chunk = prev, filename = (if isFirst then fname else ''''), isLast = True\<rparr>]))))"

section \<open>Results and errors (src/types.ts, src/errors.ts)\<close>

record scan_result =
  status :: string
  message :: string
  scanTime :: real
  result_filename :: "string option"
  isInfected :: bool

record file_entry =
  data :: buffer
  entry_filename :: string

text \<open>
  An error object with the fields the classes of src/errors.ts set: \<open>name\<close>, \<open>message\<close>,
  \<open>code\<close> and \<open>statusCode\<close> (a plain \<open>Error\<close> has neither of the last two). The
  \<open>cause\<close> is left out: nothing below reads it.
\<close>

datatype js_error =
  JsError (err_name: string) (err_message: string) (err_code: "string option") (err_statusCode: "int option")

definition ClamAVError :: "string \<Rightarrow> string \<Rightarrow> int option \<Rightarrow> js_error" where
  "ClamAVError msg code statusCode = JsError ''ClamAVError'' msg (Some code) statusCode"

definition ClamAVConnectionError :: "string \<Rightarrow> js_error" where
  "ClamAVConnectionError msg = JsError ''ClamAVConnectionError'' msg (Some ''CONNECTION_ERROR'') None"

definition ClamAVTimeoutError :: "string \<Rightarrow> int option \<Rightarrow> js_error" where
  "ClamAVTimeoutError msg statusCode = JsError ''ClamAVTimeoutError'' msg (Some ''TIMEOUT'') statusCode"

definition ClamAVValidationError :: "string \<Rightarrow> int option \<Rightarrow> js_error" where
  "ClamAVValidationError msg statusCode =
     JsError ''ClamAVValidationError'' msg (Some ''VALIDATION_ERROR'') statusCode"

definition ClamAVServiceError :: "string \<Rightarrow> int option \<Rightarrow> js_error" where
  "ClamAVServiceError msg statusCode =
     JsError ''ClamAVServiceError'' msg (Some ''SERVICE_ERROR'') statusCode"

text \<open>
  A value caught by a \<open>catch\<close>: an \<open>Error\<close> object, or any other value, of which the
  source only takes \<open>String(err)\<close>.
\<close>

datatype thrown = ThrownError js_error | ThrownValue string

section \<open>The gRPC client (src/grpc/client.ts)\<close>

record grpc_scan_response =
  response_status :: string
  response_message :: string
  scan_time :: real
  response_filename :: string

definition toScanResult :: "grpc_scan_response \<Rightarrow> scan_result" where
  "toScanResult response =
     (let st = (if response_status response \<noteq> '''' then response_status response else ''ERROR'')
      in \<lparr>status = st,
          message = (if response_message response \<noteq> '''' then response_message response else ''''),
          scanTime = (if scan_time response \<noteq> 0 then scan_time response else 0),
          result_filename =
            (if response_filename response \<noteq> '''' then Some (response_filename response) else None),
          isInfected = (st = ''FOUND'')\<rparr>)"

text \<open>
  A \<open>grpc.ServiceError\<close>, and the status codes of the gRPC library that \<open>mapGrpcError\<close>
  names (their values are those of the library).
\<close>

record service_error =
  service_code :: int
  service_details :: string
  service_message :: string

definition status_CANCELLED :: int where "status_CANCELLED = 1"

definition status_INVALID_ARGUMENT :: int where "status_INVALID_ARGUMENT = 3"

definition status_DEADLINE_EXCEEDED :: int where "status_DEADLINE_EXCEEDED = 4"

definition status_INTERNAL :: int where "status_INTERNAL = 13"

definition status_UNAVAILABLE :: int where "status_UNAVAILABLE = 14"

definition mapGrpcError :: "service_error \<Rightarrow> js_error" where
  "mapGrpcError err =
     (let msg = (if service_details err \<noteq> '''' then service_details err else service_message err);
          c = service_code err
      in if c = status_INVALID_ARGUMENT then ClamAVValidationError msg (Some c)
         else if c = status_INTERNAL then ClamAVServiceError msg (Some c)
         else if c = status_DEADLINE_EXCEEDED then ClamAVTimeoutError msg (Some c)
         else if c = status_UNAVAILABLE then ClamAVConnectionError msg
         else if c = status_CANCELLED then ClamAVError msg ''CANCELLED'' (Some c)
         else ClamAVError msg ''GRPC_ERROR'' (Some c))"

subsection \<open>The call and the cancellation signal\<close>

text \<open>
  The transport is a stub that records what the client does with it: the start of a call
  (\<open>this.client.healthCheck(...)\<close>, \<open>scanFile\<close>, \<open>scanStream\<close>, \<open>scanMultiple\<close>), and
  on the call \<open>write\<close>, \<open>end\<close> and \<open>cancel\<close>. \<open>ListenAbort\<close> records that a listener
  for \<open>abort\<close> was added to the signal with the call as its target.
\<close>

datatype rpc = HealthCheck | ScanFile | ScanStream | ScanMultiple

datatype call_action = StartCall rpc | Write upload_frame | End | Cancel | ListenAbort

text \<open>The \<open>AbortSignal\<close> of the request options; \<open>None\<close> is no signal.\<close>

record abort_signal =
  aborted :: bool

definition wireAbortSignal :: "abort_signal option \<Rightarrow> call_action list" where
  "wireAbortSignal signal =
     (case signal of
        None \<Rightarrow> []
      | Some sg \<Rightarrow> if aborted sg then [Cancel] else [ListenAbort])"








subsection \<open>The multi-file driver: \<open>scanMultiple\<close>\<close>

text \<open>
  The sender of \<open>scanMultiple\<close>: for each file in turn \<open>Readable.from(file.data)\<close>, a
  stream of one fragment, is sent with \<open>sendStreamChunks\<close>, and after the last file the
  call is ended.
\<close>

fun submit :: "file_entry list \<Rightarrow> call_action list option" where
  "submit [] = Some [End]"
| "submit (file # rest) =
     (case sendStreamChunks [data file] (entry_filename file) of
        None \<Rightarrow> None
      | Some written \<Rightarrow>
          (case submit rest of
             None \<Rightarrow> None
           | Some acts \<Rightarrow> Some (map Write written @ acts)))"

text \<open>
  What the generator hands to its consumer: a yielded result, a raised failure, or the
  normal end of the sequence.
\<close>

datatype gen_out = Yield scan_result | Throw js_error | Return

text \<open>
  Where the body of the generator stands: \<open>Runnable\<close> before the loop and at a
  \<open>yield\<close> (it runs on at the consumer's next request), \<open>Awaiting\<close> at the
  \<open>await new Promise\<close>, \<open>Completed\<close> after \<open>return\<close> or \<open>throw\<close>.
\<close>

datatype control = Runnable | Awaiting | Completed

text \<open>
  The state of one run: the \<open>state\<close> object of the source (\<open>results\<close>,
  \<open>resolveNext\<close>, \<open>done\<close>, \<open>error\<close>), the local \<open>yielded\<close>, the position of the
  body, what was done with the call so far, and the files to send. \<open>resolveNext\<close> is
  \<open>None\<close> for \<open>null\<close>, \<open>Some False\<close> for the resolver of a promise that is still
  pending and \<open>Some True\<close> for a resolver that has been called.
\<close>

record driver_state =
  results :: "scan_result list"
  resolveNext :: "bool option"
  is_done :: bool
  error :: "js_error option"
  yielded :: nat
  position :: control
  call_log :: "call_action list"
  files :: "file_entry list"

definition notify :: "driver_state \<Rightarrow> driver_state" where
  "notify s = s\<lparr>resolveNext := map_option (\<lambda>_. True) (resolveNext s)\<rparr>"

text \<open>
  One iteration of the \<open>while (true)\<close> loop, up to the point where the body stops: at the
  \<open>yield\<close>, at \<open>throw\<close> or \<open>return\<close>, or at the \<open>await\<close>.
\<close>

definition iterate :: "driver_state \<Rightarrow> gen_out list \<times> driver_state" where
  "iterate s =
     (if yielded s < length (results s) then
        ([Yield (results s ! yielded s)], s\<lparr>yielded := yielded s + 1, position := Runnable\<rparr>)
      else if is_done s \<and> yielded s \<ge> length (results s) then
        (case error s of
           Some e \<Rightarrow> ([Throw e], s\<lparr>position := Completed\<rparr>)
         | None \<Rightarrow> ([Return], s\<lparr>position := Completed\<rparr>))
      else ([], s\<lparr>resolveNext := Some False, position := Awaiting\<rparr>))"

text \<open>
  The steps of a run. \<open>OnData\<close>, \<open>OnError\<close> and \<open>OnEnd\<close> are the three handlers set
  on the call. \<open>SenderDone\<close> is the \<open>try\<close> block of the sender running to its end (all
  files sent, then \<open>call.end()\<close>), \<open>SenderFails\<close> is its \<open>catch\<close> block; the frames
  written before a failure are not recorded. \<open>Next\<close> is a request of the consumer for
  the next element, which runs the body when it stands at the start or at a \<open>yield\<close>;
  \<open>Wake\<close> is the continuation of the awaited promise, which runs the body once the
  promise has been resolved. A run starts with the state that the first request of the
  consumer sets up before it enters the loop.
\<close>

datatype event =
    OnData grpc_scan_response
  | OnError service_error
  | OnEnd
  | SenderDone
  | SenderFails thrown
  | Next
  | Wake

definition as_error :: "thrown \<Rightarrow> js_error" where
  "as_error err = (case err of ThrownError e \<Rightarrow> e | ThrownValue v \<Rightarrow> JsError ''Error'' v None None)"

fun step :: "driver_state \<Rightarrow> event \<Rightarrow> gen_out list \<times> driver_state" where
  "step s (OnData response) = ([], notify (s\<lparr>results := results s @ [toScanResult response]\<rparr>))"
| "step s (OnError err) = ([], notify (s\<lparr>error := Some (mapGrpcError err), is_done := True\<rparr>))"
| "step s OnEnd = ([], notify (s\<lparr>is_done := True\<rparr>))"
| "step s SenderDone =
     (case submit (files s) of
        None \<Rightarrow> ([], s)
      | Some acts \<Rightarrow> ([], s\<lparr>call_log := call_log s @ acts\<rparr>))"
| "step s (SenderFails err) =
     ([], notify (s\<lparr>error := Some (as_error err), is_done := True, call_log := call_log s @ [Cancel]\<rparr>))"
| "step s Next = (if position s = Runnable then iterate s else ([], s))"
| "step s Wake =
     (if position s = Awaiting \<and> resolveNext s = Some True then iterate s else ([], s))"

fun exec :: "driver_state \<Rightarrow> event list \<Rightarrow> gen_out list \<times> driver_state" where
  "exec s [] = ([], s)"
| "exec s (e # es) =
     (case step s e of
        (out, s') \<Rightarrow> (case exec s' es of (outs, s'') \<Rightarrow> (out @ outs, s'')))"

definition start :: "file_entry list \<Rightarrow> abort_signal option \<Rightarrow> driver_state" where
  "start fs signal =
     \<lparr>results = [], resolveNext = None, is_done = False, error = None, yielded = 0,
      position = Runnable, call_log = StartCall ScanMultiple # wireAbortSignal signal, files = fs\<rparr>"

text \<open>The results yielded, the result events and the failures recorded in a run.\<close>

fun yields :: "gen_out list \<Rightarrow> scan_result list" where
  "yields [] = []"
| "yields (Yield r # outs) = r # yields outs"
| "yields (_ # outs) = yields outs"

fun data_events :: "event list \<Rightarrow> grpc_scan_response list" where
  "data_events [] = []"
| "data_events (OnData response # es) = response # data_events es"
| "data_events (_ # es) = data_events es"

fun failure_signals :: "event list \<Rightarrow> js_error list" where
  "failure_signals [] = []"
| "failure_signals (OnError err # es) = mapGrpcError err # failure_signals es"
| "failure_signals (SenderFails err # es) = as_error err # failure_signals es"
| "failure_signals (_ # es) = failure_signals es"

section \<open>The REST client (src/rest/client.ts)\<close>

text \<open>
  The decimal text of an integer, for the template literals \<open>`${timeout}`\<close> and
  \<open>`HTTP ${response.status}`\<close>.
\<close>

fun digits :: "nat \<Rightarrow> string" where
  "digits n =
     (if n < 10 then [char_of (48 + n)] else digits (n div 10) @ [char_of (48 + n mod 10)])"

definition number_text :: "int \<Rightarrow> string" where
  "number_text i = (if i < 0 then CHR ''-'' # digits (nat (- i)) else digits (nat i))"

text \<open>
  The client keeps \<open>baseUrl\<close> and \<open>timeout\<close>. The custom headers, which are only
  copied into the request, are left out.
\<close>

record rest_client =
  baseUrl :: string
  timeout :: int

text \<open>
  The request handed to the global \<open>fetch\<close>: the address, the method, the body, and
  whether the signal of the controller is aborted at that moment.
\<close>

datatype request_body = NoBody | FormFile buffer string | Raw buffer

record fetch_request =
  url :: string
  http_method :: string
  body :: request_body
  signal_aborted :: bool

text \<open>
  A value that a promise of the REST client rejects with. \<open>instanceof ClamAVError\<close> is
  a test of the prototype chain of the object, whatever its fields say, so the class is
  part of the value: \<open>ClamAVInstance\<close> is an object built by one of the five classes of
  src/errors.ts, \<open>ErrorObject\<close> is any other \<open>Error\<close> object, and \<open>OtherValue\<close> is a
  value that is not an \<open>Error\<close>, of which the source only takes \<open>String(err)\<close>.
\<close>

datatype rejection = ClamAVInstance js_error | ErrorObject js_error | OtherValue string

definition is_ClamAVError :: "rejection \<Rightarrow> bool" where
  "is_ClamAVError err = (case err of ClamAVInstance e \<Rightarrow> True | _ \<Rightarrow> False)"

text \<open>
  The parsed body of a response, and a response: \<open>ok\<close>, the status, and what
  \<open>response.json()\<close> gives, a parsed body or the value it rejects with.
\<close>

record json_body =
  body_status :: "string option"
  body_message :: "string option"
  body_time :: "real option"

record http_response =
  ok :: bool
  http_status :: int
  json :: "rejection + json_body"

text \<open>
  What the global \<open>fetch\<close> answers: a response, a rejection with a \<open>DOMException\<close>
  named \<open>AbortError\<close>, or another rejection. The flag of \<open>AbortRejected\<close> tells
  whether the external signal was aborted while the request was under way (a signal
  aborted at the call stays aborted). The global \<open>fetch\<close> is a parameter of the client
  functions, a stub that answers each request.
\<close>

datatype fetch_outcome = Fulfilled http_response | AbortRejected bool | Rejected rejection

text \<open>
  What \<open>fetch\<close> of the client does, in order: it sets the timer, links the external
  signal to its controller, calls the global \<open>fetch\<close>, and clears the timer. The call of
  the global \<open>fetch\<close> is awaited inside the \<open>try\<close> block, so its rejection is caught.
\<close>

datatype rest_action = SetTimeout int | AbortController | LinkAbort | GlobalFetch fetch_request | ClearTimeout

definition rest_fetch ::
  "(fetch_request \<Rightarrow> fetch_outcome) \<Rightarrow> rest_client \<Rightarrow> string \<Rightarrow> string \<Rightarrow> request_body
     \<Rightarrow> int option \<Rightarrow> abort_signal option \<Rightarrow> rest_action list \<times> (rejection + http_response)" where
  "rest_fetch globalFetch client path verb request_body timeout_opt signal =
     (let t = (case timeout_opt of Some v \<Rightarrow> v | None \<Rightarrow> timeout client);
          linked = (case signal of
                      None \<Rightarrow> []
                    | Some sg \<Rightarrow> if aborted sg then [AbortController] else [LinkAbort]);
          request = \<lparr>url = baseUrl client @ path, http_method = verb, body = request_body,
                     signal_aborted = (case signal of None \<Rightarrow> False | Some sg \<Rightarrow> aborted sg)\<rparr>;
          acts = SetTimeout t # linked @ [GlobalFetch request, ClearTimeout]
      in case globalFetch request of
           Fulfilled response \<Rightarrow> (acts, Inr response)
         | AbortRejected meanwhile \<Rightarrow>
             (acts,
              Inl (ClamAVInstance
                (if (case signal of None \<Rightarrow> False | Some sg \<Rightarrow> aborted sg \<or> meanwhile)
                 then ClamAVError ''Request was cancelled'' ''CANCELLED'' (Some 499)
                 else ClamAVTimeoutError (''Request timed out after '' @ number_text t @ ''ms'')
                        (Some 504))))
         | Rejected err \<Rightarrow> (acts, Inl err))"

definition handleErrorStatus :: "http_response \<Rightarrow> json_body \<Rightarrow> js_error option" where
  "handleErrorStatus response parsed =
     (if ok response then None
      else
        (let msg = (case body_message parsed of
                      Some m \<Rightarrow> m
                    | None \<Rightarrow>
                        (case body_status parsed of
                           Some st \<Rightarrow> st
                         | None \<Rightarrow> ''HTTP '' @ number_text (http_status response)));
             c = http_status response
         in Some
              (if c = 400 then ClamAVValidationError msg (Some 400)
               else if c = 413 then ClamAVValidationError msg (Some 413)
               else if c = 499 then ClamAVError msg ''CANCELLED'' (Some 499)
               else if c = 502 then ClamAVServiceError msg (Some 502)
               else if c = 504 then ClamAVTimeoutError msg (Some 504)
               else ClamAVError msg ''UNKNOWN'' (Some c))))"

text \<open>
  \<open>parseScanResponse\<close>: a rejection of \<open>response.json()\<close> leaves the function as it is,
  and an error of \<open>handleErrorStatus\<close> is an object of a class of src/errors.ts.
\<close>

definition parseScanResponse :: "http_response \<Rightarrow> string option \<Rightarrow> rejection + scan_result" where
  "parseScanResponse response fname =
     (case json response of
        Inl err \<Rightarrow> Inl err
      | Inr parsed \<Rightarrow>
          (case handleErrorStatus response parsed of
             Some e \<Rightarrow> Inl (ClamAVInstance e)
           | None \<Rightarrow>
               (let st = (case body_status parsed of Some v \<Rightarrow> v | None \<Rightarrow> ''ERROR'')
                in Inr \<lparr>status = st,
                        message = (case body_message parsed of Some m \<Rightarrow> m | None \<Rightarrow> ''''),
                        scanTime = (case body_time parsed of Some v \<Rightarrow> v | None \<Rightarrow> 0),
                        result_filename = fname,
                        isInfected = (st = ''FOUND'')\<rparr>)))"

text \<open>
  \<open>scanFile\<close> for an input that is a \<open>Buffer\<close> (a path is read from the file system,
  which is not modelled): \<open>resolveInput\<close> gives the buffer and the file name, \<open>'file'\<close>
  when none is given. The result is what the client did and how the promise settles:
  \<open>Inr\<close> the result, \<open>Inl\<close> the value it rejects with. The \<open>catch\<close> block covers
  what is awaited inside the \<open>try\<close> block, the \<open>fetch\<close> of the client: its rejection is
  thrown again when it is an instance of \<open>ClamAVError\<close> and is replaced by a
  \<open>ClamAVConnectionError\<close> otherwise. The promise of \<open>parseScanResponse\<close> is returned
  without \<open>await\<close>, so its rejection does not pass through the \<open>catch\<close> block and is
  the rejection of \<open>scanFile\<close> as it is.
\<close>

definition rest_scanFile ::
  "(fetch_request \<Rightarrow> fetch_outcome) \<Rightarrow> rest_client \<Rightarrow> buffer \<Rightarrow> string option
     \<Rightarrow> int option \<Rightarrow> abort_signal option \<Rightarrow> rest_action list \<times> (rejection + scan_result)" where
  "rest_scanFile globalFetch client input fname_opt timeout_opt signal =
     (let fname = (case fname_opt of Some f \<Rightarrow> f | None \<Rightarrow> ''file'')
      in case rest_fetch globalFetch client ''/api/scan'' ''POST'' (FormFile input fname)
                timeout_opt signal of
           (acts, fetched) \<Rightarrow>
             (acts,
              (case fetched of
                 Inl err \<Rightarrow>
                   Inl (if is_ClamAVError err then err
                        else ClamAVInstance (ClamAVConnectionError ''Failed to connect to ClamAV API''))
               | Inr response \<Rightarrow> parseScanResponse response (Some fname))))"

text \<open>
  \<open>scanMultiple\<close> of the REST client, run to its end by a consumer that takes every
  element: one \<open>scanFile\<close> per file, all of them settled by \<open>Promise.allSettled\<close>, then
  one element per settled promise, in the order of the list, then the end of the sequence.
  The message of a rejected scan is \<open>err.message\<close> when the reason is an \<open>Error\<close>
  object and \<open>String(err)\<close> otherwise.
\<close>

definition reason_message :: "rejection \<Rightarrow> string" where
  "reason_message err =
     (case err of
        ClamAVInstance e \<Rightarrow> err_message e
      | ErrorObject e \<Rightarrow> err_message e
      | OtherValue v \<Rightarrow> v)"

definition settled_result :: "rejection + scan_result \<Rightarrow> scan_result" where
  "settled_result result =
     (case result of
        Inr v \<Rightarrow> v
      | Inl err \<Rightarrow>
          \<lparr>status = ''ERROR'',
           message = reason_message err,
           scanTime = 0,
           result_filename = None,
           isInfected = False\<rparr>)"

definition rest_scanMultiple ::
  "(fetch_request \<Rightarrow> fetch_outcome) \<Rightarrow> rest_client \<Rightarrow> file_entry list
     \<Rightarrow> int option \<Rightarrow> abort_signal option \<Rightarrow> gen_out list" where
  "rest_scanMultiple globalFetch client fs timeout_opt signal =
     (let promises = map (\<lambda>file. snd (rest_scanFile globalFetch client (data file)
                                          (Some (entry_filename file)) timeout_opt signal)) fs
      in map (\<lambda>result. Yield (settled_result result)) promises @ [Return])"

section \<open>Properties of the chunker\<close>

lemma merge_pending_concat: "merge_pending pending = concat pending"
  by (cases pending) (auto simp: merge_pending_def)

lemma subarray_head:
  "0 \<le> n \<Longrightarrow> subarray buf 0 (Some n) = take (nat n) buf"
  by (simp add: subarray_def rel_index_def min_def Let_def)

lemma subarray_tail:
  "0 \<le> n \<Longrightarrow> subarray buf n None = drop (nat n) buf"
  by (simp add: subarray_def rel_index_def min_def Let_def)

lemma drain_exit: "pendingBytes < chunkSize \<Longrightarrow>
  drain chunkSize pending pendingBytes = Some ([], pending, pendingBytes)"
  by (subst drain.simps) simp

lemma drain_iter:
  assumes "chunkSize \<le> pendingBytes"
  shows "drain chunkSize pending pendingBytes =
     Option.bind
       (if length (subarray (concat pending) chunkSize None) > 0
        then drain chunkSize [subarray (concat pending) chunkSize None]
               (int (length (subarray (concat pending) chunkSize None)))
        else drain chunkSize [] 0)
       (\<lambda>(frames, pending', pendingBytes').
          Some (subarray (concat pending) 0 (Some chunkSize) # frames, pending', pendingBytes'))"
  using assms by (subst drain.simps) (simp add: merge_pending_concat Let_def)

lemma drain_Some_pos:
  assumes "drain F p b = Some r"
  shows "b < F \<or> 0 < F"
proof (rule drain.raw_induct [where P = "\<lambda>F p b r. b < F \<or> 0 < F", OF _ assms], goal_cases)
  case (1 d F p b r)
  show ?case
  proof (cases "F \<le> b")
    case False
    then show ?thesis by simp
  next
    case True
    let ?rem = "subarray (merge_pending p) F None"
    from 1(2) True obtain fs q c where rc:
      "(if 0 < length ?rem then d F [?rem] (int (length ?rem)) else d F [] 0) = Some (fs, q, c)"
      by (auto simp: Let_def bind_eq_Some_conv)
    have "int (length ?rem) < F \<or> 0 < F"
    proof (cases "0 < length ?rem")
      case True
      with rc have "d F [?rem] (int (length ?rem)) = Some (fs, q, c)" by simp
      from 1(1) [OF this] show ?thesis .
    next
      case False
      with rc have "d F [] 0 = Some (fs, q, c)" by simp
      from 1(1) [OF this] show ?thesis by simp
    qed
    then show ?thesis by auto
  qed
qed

lemma drain_spec:
  assumes "0 < F" and "b = int (length (concat p))"
  shows "\<exists>fs p'. drain F p b = Some (fs, p', int (length (concat p')))
           \<and> concat fs @ concat p' = concat p
           \<and> (\<forall>f\<in>set fs. int (length f) = F)
           \<and> int (length (concat p')) < F"
  using assms
proof (induction "length (concat p)" arbitrary: p b rule: less_induct)
  case less
  show ?case
  proof (cases "F \<le> b")
    case False
    then show ?thesis using less.prems by (simp add: drain_exit)
  next
    case True
    let ?m = "concat p"
    let ?r = "drop (nat F) ?m"
    let ?q = "if 0 < length ?r then [?r] else []"
    have len: "nat F \<le> length ?m" using True less.prems by simp
    have pos: "0 < nat F" using less.prems(1) by simp
    have sm: "length (concat ?q) < length ?m"
    proof (cases "0 < length ?r")
      case True
      then show ?thesis using pos len by simp
    next
      case False
      then have "concat ?q = []" by simp
      then show ?thesis using pos len by (metis length_greater_0_conv less_le_trans list.size(3))
    qed
    have bq: "int (length ?r) = int (length (concat ?q))" by simp
    from less.hyps [OF sm less.prems(1) refl]
    obtain fs p' where rec: "drain F ?q (int (length (concat ?q))) = Some (fs, p', int (length (concat p')))"
      and cc: "concat fs @ concat p' = concat ?q"
      and fl: "\<forall>f\<in>set fs. int (length f) = F"
      and sh: "int (length (concat p')) < F" by blast
    have hd: "subarray ?m 0 (Some F) = take (nat F) ?m"
      using less.prems(1) by (simp add: subarray_head)
    have tl: "subarray ?m F None = ?r"
      using less.prems(1) by (simp add: subarray_tail)
    have step: "drain F p b = Some (take (nat F) ?m # fs, p', int (length (concat p')))"
    proof (cases "0 < length ?r")
      case True
      with rec have "drain F [?r] (int (length ?r)) = Some (fs, p', int (length (concat p')))"
        by simp
      with True show ?thesis
        unfolding drain_iter [OF \<open>F \<le> b\<close>] hd tl by simp
    next
      case False
      with rec have "drain F [] 0 = Some (fs, p', int (length (concat p')))"
        by simp
      with False show ?thesis
        unfolding drain_iter [OF \<open>F \<le> b\<close>] hd tl by simp
    qed
    have "concat (take (nat F) ?m # fs) @ concat p' = ?m"
      using cc by simp
    moreover have "\<forall>f\<in>set (take (nat F) ?m # fs). int (length f) = F"
      using fl len less.prems(1) by simp
    ultimately show ?thesis using step sh by blast
  qed
qed

lemma drain_diverges:
  assumes "F \<le> 0" and "0 \<le> b"
  shows "drain F p b = None"
proof (cases "drain F p b")
  case None
  then show ?thesis .
next
  case (Some r)
  from drain_Some_pos [OF this] assms show ?thesis by simp
qed

lemma feed_spec:
  assumes "0 < F" and "b = int (length (concat p))" and "b < F"
  shows "\<exists>fs p'. feed F p b src = Some (fs, p', int (length (concat p')))
           \<and> concat fs @ concat p' = concat p @ concat src
           \<and> (\<forall>f\<in>set fs. int (length f) = F)
           \<and> int (length (concat p')) < F"
  using assms
proof (induction src arbitrary: p b)
  case Nil
  then show ?case by simp
next
  case (Cons buf rest)
  have "b + int (length buf) = int (length (concat (p @ [buf])))"
    using Cons.prems(2) by simp
  from drain_spec [OF Cons.prems(1) this]
  obtain fs q where d: "drain F (p @ [buf]) (b + int (length buf)) = Some (fs, q, int (length (concat q)))"
    and c1: "concat fs @ concat q = concat (p @ [buf])"
    and l1: "\<forall>f\<in>set fs. int (length f) = F"
    and s1: "int (length (concat q)) < F" by blast
  from Cons.IH [OF Cons.prems(1) refl s1]
  obtain gs q' where f: "feed F q (int (length (concat q))) rest = Some (gs, q', int (length (concat q')))"
    and c2: "concat gs @ concat q' = concat q @ concat rest"
    and l2: "\<forall>f\<in>set gs. int (length f) = F"
    and s2: "int (length (concat q')) < F" by blast
  have "feed F p b (buf # rest) = Some (fs @ gs, q', int (length (concat q')))"
    using d f by simp
  moreover have "concat (fs @ gs) @ concat q' = concat p @ concat (buf # rest)"
    using c1 c2 by simp
  moreover have "\<forall>f\<in>set (fs @ gs). int (length f) = F"
    using l1 l2 by auto
  ultimately show ?case using s2 by blast
qed

lemma chunkStream_spec:
  assumes "0 < F"
  shows "\<exists>frames. chunkStream source F = Some frames
           \<and> concat frames = concat source
           \<and> (\<forall>f\<in>set (butlast frames). int (length f) = F)
           \<and> (frames \<noteq> [] \<longrightarrow> 0 < length (last frames) \<and> int (length (last frames)) \<le> F)"
proof -
  have "(0::int) = int (length (concat ([]::buffer list)))" by simp
  from feed_spec [OF assms this assms, of source]
  obtain fs q where f: "feed F [] 0 source = Some (fs, q, int (length (concat q)))"
    and c: "concat fs @ concat q = concat source"
    and l: "\<forall>f\<in>set fs. int (length f) = F"
    and s: "int (length (concat q)) < F" by auto
  show ?thesis
  proof (cases "0 < length (concat q)")
    case True
    then have "chunkStream source F = Some (fs @ [concat q])"
      using f by (simp add: chunkStream_def merge_pending_concat)
    then show ?thesis using c l s True by simp
  next
    case False
    then have cs: "chunkStream source F = Some fs"
      using f by (simp add: chunkStream_def)
    have "f \<in> set (butlast fs) \<Longrightarrow> int (length f) = F" for f
      using l by (meson in_set_butlastD)
    moreover have "fs \<noteq> [] \<Longrightarrow> int (length (last fs)) = F"
      using l by simp
    moreover from False have "concat q = []" by simp
    with c have "concat fs = concat source" by simp
    ultimately show ?thesis using cs assms by auto
  qed
qed

lemma chunkStream_no_fragment: "chunkStream [] F = Some []"
  by (simp add: chunkStream_def)

lemma chunkStream_diverges:
  assumes "F \<le> 0"
  shows "chunkStream (buf # rest) F = None"
proof -
  have "drain F ([] @ [buf]) (0 + int (length buf)) = None"
    by (rule drain_diverges [OF assms]) simp
  then show ?thesis by (simp add: chunkStream_def)
qed

lemma length_concat_uniform:
  "(\<forall>f\<in>set fs. int (length f) = F) \<Longrightarrow> int (length (concat fs)) = int (length fs) * F"
  by (induction fs) (auto simp: algebra_simps)

lemma frames_total:
  assumes "frames \<noteq> []" and "\<forall>f\<in>set (butlast frames). int (length f) = F"
  shows "int (length (concat frames)) =
           int (length (butlast frames)) * F + int (length (last frames))"
proof -
  have "concat frames = concat (butlast frames) @ last frames"
    using assms(1) by (metis append_butlast_last_id concat.simps(1,2) concat_append append_Nil2)
  then show ?thesis
    using length_concat_uniform [OF assms(2)] by simp
qed

text \<open>
  Claim C1. For every finite sequence of fragments and every frame size \<open>F > 0\<close> the
  chunker returns, and the concatenation of the frames it yields is the concatenation of
  the fragments. When \<open>F\<close> is larger than the total length there is a single short frame
  (none for an input without bytes), and when \<open>F\<close> divides the total length every frame,
  the last one too, has length \<open>F\<close>.
\<close>

theorem chunkStream_roundtrip:
  assumes "0 < F"
  shows "\<exists>frames. chunkStream source F = Some frames
           \<and> concat frames = concat source
           \<and> (int (length (concat source)) < F \<longrightarrow>
                frames = (if concat source = [] then [] else [concat source]))
           \<and> (F dvd int (length (concat source)) \<longrightarrow> (\<forall>f\<in>set frames. int (length f) = F))"
proof -
  from chunkStream_spec [OF assms, of source]
  obtain frames where cs: "chunkStream source F = Some frames"
    and rt: "concat frames = concat source"
    and full: "\<forall>f\<in>set (butlast frames). int (length f) = F"
    and lst: "frames \<noteq> [] \<longrightarrow> 0 < length (last frames) \<and> int (length (last frames)) \<le> F"
    by blast
  have short: "frames = (if concat source = [] then [] else [concat source])"
    if lt: "int (length (concat source)) < F"
  proof (cases "frames = []")
    case True
    then show ?thesis using rt by auto
  next
    case False
    from frames_total [OF False full] rt lt lst False
    have b: "int (length (butlast frames)) * F + int (length (last frames)) < F"
      and l: "0 < int (length (last frames))" by auto
    have "length (butlast frames) = 0"
    proof (rule ccontr)
      assume "length (butlast frames) \<noteq> 0"
      then have "1 \<le> int (length (butlast frames))" by simp
      then have "1 * F \<le> int (length (butlast frames)) * F"
        using assms by (intro mult_right_mono) auto
      with b l show False by simp
    qed
    then have "frames = [last frames]"
      using False by (metis append_butlast_last_id append_Nil length_0_conv)
    then have "frames = [concat frames]" by (metis concat.simps(1,2) append_Nil2)
    then show ?thesis using rt l False lst by auto
  qed
  have even: "\<forall>f\<in>set frames. int (length f) = F"
    if dv: "F dvd int (length (concat source))"
  proof (cases "frames = []")
    case True
    then show ?thesis by simp
  next
    case False
    from frames_total [OF False full] rt dv
    have "F dvd int (length (butlast frames)) * F + int (length (last frames))" by simp
    then have "F dvd int (length (last frames))"
      by (metis dvd_add_right_iff dvd_triv_right)
    moreover from lst False have "0 < int (length (last frames))" "int (length (last frames)) \<le> F"
      by auto
    ultimately have "int (length (last frames)) = F"
      using zdvd_imp_le zdvd_not_zless by (metis order_antisym_conv not_less)
    moreover have "set frames = set (butlast frames) \<union> {last frames}"
      using False by (metis append_butlast_last_id set_append list.set(1,2) Un_insert_right sup_bot.right_neutral)
    ultimately show ?thesis using full by auto
  qed
  from cs rt short even show ?thesis by blast
qed

theorem chunkStream_roundtrip_witness:
  "(0::int) < 4
   \<and> chunkStream [[1, 2, 3], [4], [5, 6, 7, 8, 9]] 4 = Some [[1, 2, 3, 4], [5, 6, 7, 8], [9]]
   \<and> (\<exists>frames. chunkStream [[1, 2, 3], [4], [5, 6, 7, 8, 9]] 4 = Some frames
         \<and> concat frames = concat [[1, 2, 3], [4], [5, 6, 7, 8, 9]])"
  using chunkStream_roundtrip [of 4 "[[1, 2, 3], [4], [5, 6, 7, 8, 9]]"]
  by (simp add: chunkStream_def drain.simps merge_pending_def subarray_def rel_index_def)

text \<open>
  Claim C2. For every finite sequence of fragments and every frame size \<open>F > 0\<close>, every
  frame the chunker yields except possibly the last has length exactly \<open>F\<close>, the last
  frame has a length in \<open>(0, F]\<close>, and the empty sequence of fragments yields no frame.
\<close>

theorem chunkStream_frame_sizes:
  assumes "0 < F"
  shows "(\<exists>frames. chunkStream source F = Some frames
           \<and> (\<forall>f\<in>set (butlast frames). int (length f) = F)
           \<and> (frames \<noteq> [] \<longrightarrow> 0 < length (last frames) \<and> int (length (last frames)) \<le> F))
         \<and> chunkStream [] F = Some []"
  using chunkStream_spec [OF assms, of source] chunkStream_no_fragment by blast

theorem chunkStream_frame_sizes_witness:
  "(0::int) < 4
   \<and> (\<exists>frames. chunkStream [[1, 2, 3], [4, 5, 6, 7, 8, 9]] 4 = Some frames
         \<and> (\<forall>f\<in>set (butlast frames). int (length f) = 4)
         \<and> (frames \<noteq> [] \<longrightarrow> 0 < length (last frames) \<and> int (length (last frames)) \<le> 4))
   \<and> chunkStream [[1, 2, 3], [4, 5, 6, 7, 8, 9]] 4 = Some [[1, 2, 3, 4], [5, 6, 7, 8], [9]]"
  using chunkStream_frame_sizes [of 4 "[[1, 2, 3], [4, 5, 6, 7, 8, 9]]"]
  by (simp add: chunkStream_def drain.simps merge_pending_def subarray_def rel_index_def)

text \<open>
  Claim C7 says that a frame size \<open>F \<le> 0\<close> is rejected with an error. The source has no
  check of \<open>chunkSize\<close>: with \<open>F = 0\<close> and no fragment the generator returns normally
  without a frame, and with one fragment of one byte and \<open>F = 0\<close> or \<open>F = -1\<close> the inner
  loop never exits.
\<close>

theorem chunkStream_nonpositive_size_counterexample:
  "chunkStream [] 0 = Some [] \<and> chunkStream [[0x41]] 0 = None \<and> chunkStream [[0x41]] (- 1) = None"
  using chunkStream_no_fragment [of 0] chunkStream_diverges [of 0 "[0x41]" "[]"]
    chunkStream_diverges [of "- 1" "[0x41]" "[]"]
  by simp

text \<open>
  Claim C7, as the code has it. For every frame size \<open>F \<le> 0\<close> the chunker raises no
  error: on the empty sequence of fragments it returns normally with no frame, and on every
  other sequence it never returns.
\<close>

theorem chunkStream_nonpositive_size:
  assumes "F \<le> 0"
  shows "chunkStream source F = (if source = [] then Some [] else None)"
proof (cases source)
  case Nil
  then show ?thesis by (simp add: chunkStream_no_fragment)
next
  case (Cons buf rest)
  then show ?thesis using chunkStream_diverges [OF assms] by simp
qed

theorem chunkStream_nonpositive_size_witness:
  "(- 2::int) \<le> 0 \<and> chunkStream [[1, 2], [3]] (- 2) = None \<and> chunkStream [] (- 2) = Some []"
  using chunkStream_nonpositive_size [of "- 2" "[[1, 2], [3]]"]
    chunkStream_nonpositive_size [of "- 2" "[]"]
  by simp

section \<open>Properties of the frame sender\<close>

lemma send_loop_held:
  "send_loop fname (Some p) isFirst chunks =
     (case chunks of
        [] \<Rightarrow> ([], Some p, isFirst)
      | _ # _ \<Rightarrow>
          (\<lparr>chunk = p, filename = (if isFirst then fname else ''''), isLast = False\<rparr>
             # map (\<lambda>c. \<lparr>chunk = c, filename = '''', isLast = False\<rparr>) (butlast chunks),
           Some (last chunks), False))"
proof (induction chunks arbitrary: p isFirst)
  case Nil
  then show ?case by simp
next
  case (Cons c rest)
  have "send_loop fname (Some p) isFirst (c # rest) =
          (case send_loop fname (Some c) False rest of
             (written, prevChunk', isFirst') \<Rightarrow>
               (\<lparr>chunk = p, filename = (if isFirst then fname else []), isLast = False\<rparr> # written,
                prevChunk', isFirst'))"
    by simp
  also have "\<dots> = (\<lparr>chunk = p, filename = (if isFirst then fname else []), isLast = False\<rparr>
             # map (\<lambda>c. \<lparr>chunk = c, filename = [], isLast = False\<rparr>) (butlast (c # rest)),
           Some (last (c # rest)), False)"
    unfolding Cons.IH by (cases rest) simp_all
  finally show ?case by simp
qed

lemma send_loop_start:
  "send_loop fname None isFirst (c # rest) = send_loop fname (Some c) isFirst rest"
  by simp

lemma sendStreamChunks_written:
  assumes "chunkStream stream CHUNK_SIZE = Some chunks"
  shows "sendStreamChunks stream fname =
     Some (case chunks of
        [] \<Rightarrow> []
      | c # rest \<Rightarrow>
          (if rest = [] then [\<lparr>chunk = c, filename = fname, isLast = True\<rparr>]
           else \<lparr>chunk = c, filename = fname, isLast = False\<rparr>
                  # map (\<lambda>c. \<lparr>chunk = c, filename = '''', isLast = False\<rparr>) (butlast rest)
                  @ [\<lparr>chunk = last rest, filename = '''', isLast = True\<rparr>]))"
proof (cases chunks)
  case Nil
  then show ?thesis using assms by (simp add: sendStreamChunks_def)
next
  case (Cons c rest)
  then show ?thesis using assms
    by (cases rest) (simp_all add: sendStreamChunks_def send_loop_start send_loop_held del: send_loop.simps(2))
qed

lemma CHUNK_SIZE_pos: "0 < CHUNK_SIZE"
  by (simp add: CHUNK_SIZE_def)

lemma chunkStream_empty_iff:
  assumes "0 < F" and "chunkStream source F = Some frames"
  shows "frames = [] \<longleftrightarrow> concat source = []"
proof -
  from chunkStream_spec [OF assms(1), of source] assms(2)
  have rt: "concat frames = concat source"
    and lst: "frames \<noteq> [] \<longrightarrow> 0 < length (last frames)" by auto
  show ?thesis
  proof
    assume "frames = []"
    then show "concat source = []" using rt by simp
  next
    assume e: "concat source = []"
    show "frames = []"
    proof (rule ccontr)
      assume ne: "frames \<noteq> []"
      then have "last frames \<in> set frames" by simp
      moreover from e rt have "concat frames = []" by simp
      ultimately have "last frames = []" by simp
      with lst ne show False by simp
    qed
  qed
qed

lemma chunk_one: "chunkStream [[1, 2, 3]] CHUNK_SIZE = Some [[1, 2, 3]]"
  by (simp add: chunkStream_def drain.simps CHUNK_SIZE_def merge_pending_def)

lemma chunk_two: "chunkStream [replicate 65536 7, [1, 2]] CHUNK_SIZE = Some [replicate 65536 7, [1, 2]]"
  by (simp add: chunkStream_def drain.simps CHUNK_SIZE_def merge_pending_def subarray_def rel_index_def)

text \<open>
  Claim C3. For a file of which the chunker yields at least one chunk, and a file name that
  is not empty, the frame sender writes one message per chunk, in order; exactly one message
  carries a file name that is not empty, and it is the first; exactly one message carries
  \<open>isLast = true\<close>, and it is the last; when there is exactly one chunk the single
  message carries both.
\<close>

theorem sendStreamChunks_labels:
  assumes "fname \<noteq> ''''"
    and "chunkStream stream CHUNK_SIZE = Some chunks"
    and "chunks \<noteq> []"
  shows "\<exists>written. sendStreamChunks stream fname = Some written
           \<and> map chunk written = chunks
           \<and> filter (\<lambda>w. filename w \<noteq> '''') written = [hd written]
           \<and> filename (hd written) = fname
           \<and> filter isLast written = [last written]
           \<and> (length chunks = 1 \<longrightarrow> written = [\<lparr>chunk = hd chunks, filename = fname, isLast = True\<rparr>])"
proof -
  obtain c rest where ch: "chunks = c # rest" using assms(3) by (cases chunks) auto
  show ?thesis
  proof (cases "rest = []")
    case True
    then show ?thesis
      using assms(1) ch by (simp add: sendStreamChunks_written [OF assms(2)])
  next
    case False
    then have br: "butlast rest @ [last rest] = rest" by simp
    let ?mid = "map (\<lambda>c. \<lparr>chunk = c, filename = '''', isLast = False\<rparr>) (butlast rest)"
    let ?w = "\<lparr>chunk = c, filename = fname, isLast = False\<rparr> # ?mid
                @ [\<lparr>chunk = last rest, filename = '''', isLast = True\<rparr>]"
    have w: "sendStreamChunks stream fname = Some ?w"
      using False ch by (simp add: sendStreamChunks_written [OF assms(2)])
    have "map chunk ?w = c # butlast rest @ [last rest]"
      by (simp add: comp_def)
    then have m: "map chunk ?w = chunks" using br ch by simp
    have f1: "filter (\<lambda>w. filename w \<noteq> '''') ?mid = []" by (induction "butlast rest") auto
    have f2: "filter isLast ?mid = []" by (induction "butlast rest") auto
    have "filter (\<lambda>w. filename w \<noteq> '''') ?w = [hd ?w]"
      using assms(1) f1 by simp
    moreover have "filter isLast ?w = [last ?w]"
      using f2 by simp
    moreover have "length chunks \<noteq> 1" using ch False by simp
    ultimately show ?thesis using w m by simp
  qed
qed

theorem sendStreamChunks_labels_witness:
  "''a.txt'' \<noteq> ''''
   \<and> chunkStream [replicate 65536 7, [1, 2]] CHUNK_SIZE = Some [replicate 65536 7, [1, 2]]
   \<and> sendStreamChunks [replicate 65536 7, [1, 2]] ''a.txt'' =
       Some [\<lparr>chunk = replicate 65536 7, filename = ''a.txt'', isLast = False\<rparr>,
             \<lparr>chunk = [1, 2], filename = '''', isLast = True\<rparr>]
   \<and> chunkStream [[1, 2, 3]] CHUNK_SIZE = Some [[1, 2, 3]]
   \<and> sendStreamChunks [[1, 2, 3]] ''a.txt'' =
       Some [\<lparr>chunk = [1, 2, 3], filename = ''a.txt'', isLast = True\<rparr>]"
proof -
  have n: "''a.txt'' \<noteq> ''''" by simp
  have two: "[replicate 65536 7, [1, 2]] \<noteq> ([] :: buffer list)" by simp
  have one: "[[1, 2, 3]] \<noteq> ([] :: buffer list)" by simp
  from sendStreamChunks_labels [OF n chunk_two two]
  obtain w where w: "sendStreamChunks [replicate 65536 7, [1, 2]] ''a.txt'' = Some w"
    and mw: "map chunk w = [replicate 65536 7, [1, 2]]"
    and fw: "filter (\<lambda>w. filename w \<noteq> '''') w = [hd w]" "filename (hd w) = ''a.txt''"
    and lw: "filter isLast w = [last w]" by (elim exE conjE) (rule that)
  from mw obtain a b where ab: "w = [a, b]" "chunk a = replicate 65536 7" "chunk b = [1, 2]"
    by auto
  from fw ab have "filename a = ''a.txt''" "filename b = ''''"
    by (auto split: if_splits)
  moreover from lw ab have "\<not> isLast a" "isLast b"
    by (auto split: if_splits)
  ultimately have "w = [\<lparr>chunk = replicate 65536 7, filename = ''a.txt'', isLast = False\<rparr>,
             \<lparr>chunk = [1, 2], filename = '''', isLast = True\<rparr>]"
    using ab by simp
  moreover from sendStreamChunks_labels [OF n chunk_one one]
  have "sendStreamChunks [[1, 2, 3]] ''a.txt'' =
       Some [\<lparr>chunk = [1, 2, 3], filename = ''a.txt'', isLast = True\<rparr>]"
    by auto
  ultimately show ?thesis using w chunk_one chunk_two by simp
qed

text \<open>
  Claim C9. For a file whose byte source yields no byte at all (no fragment, or empty
  fragments only) the frame sender returns without writing any message, not even one with
  \<open>isLast = true\<close>.
\<close>

theorem sendStreamChunks_no_bytes:
  assumes "concat stream = []"
  shows "sendStreamChunks stream fname = Some []"
proof -
  from chunkStream_spec [OF CHUNK_SIZE_pos, of stream]
  obtain chunks where cs: "chunkStream stream CHUNK_SIZE = Some chunks" by blast
  with chunkStream_empty_iff [OF CHUNK_SIZE_pos cs] assms have "chunks = []" by simp
  then show ?thesis using cs by (simp add: sendStreamChunks_def)
qed

theorem sendStreamChunks_no_bytes_witness:
  "concat [[], []] = ([] :: buffer) \<and> sendStreamChunks [[], []] ''empty.bin'' = Some []
   \<and> sendStreamChunks [] ''empty.bin'' = Some []"
  using sendStreamChunks_no_bytes [of "[[], []]" "''empty.bin''"]
    sendStreamChunks_no_bytes [of "[]" "''empty.bin''"]
  by simp

section \<open>Properties of the multi-file driver\<close>

lemma yields_append: "yields (xs @ ys) = yields xs @ yields ys"
  by (induction xs rule: yields.induct) simp_all

lemma data_events_append: "data_events (xs @ ys) = data_events xs @ data_events ys"
  by (induction xs rule: data_events.induct) simp_all

lemma failure_signals_append: "failure_signals (xs @ ys) = failure_signals xs @ failure_signals ys"
  by (induction xs rule: failure_signals.induct) simp_all

lemma iterate_results: "results (snd (iterate s)) = results s"
  by (simp add: iterate_def split: option.splits)

lemma iterate_error: "error (snd (iterate s)) = error s"
  by (simp add: iterate_def split: option.splits)

lemma iterate_yielded:
  "yielded s \<le> length (results s) \<Longrightarrow> yielded (snd (iterate s)) \<le> length (results s)"
  by (simp add: iterate_def split: option.splits)

lemma iterate_yields:
  "take (yielded s) (results s) @ yields (fst (iterate s)) =
     take (yielded (snd (iterate s))) (results s)"
  by (simp add: iterate_def take_Suc_conv_app_nth split: option.splits)

lemma step_results:
  "results (snd (step s e)) = results s @ map toScanResult (data_events [e])"
  by (cases e) (simp_all add: notify_def iterate_results split: option.splits)

lemma step_error:
  "error (snd (step s e)) =
     (if failure_signals [e] = [] then error s else Some (last (failure_signals [e])))"
  by (cases e) (simp_all add: notify_def iterate_error split: option.splits)

lemma step_yielded:
  assumes "yielded s \<le> length (results s)"
  shows "yielded (snd (step s e)) \<le> length (results (snd (step s e)))"
  using assms iterate_yielded [of s]
  by (cases e) (simp_all add: notify_def iterate_results split: option.splits)

lemma step_yields:
  assumes "yielded s \<le> length (results s)"
  shows "take (yielded s) (results s) @ yields (fst (step s e)) =
           take (yielded (snd (step s e))) (results (snd (step s e)))"
  using assms iterate_yields [of s]
  by (cases e) (simp_all add: notify_def iterate_results split: option.splits)

lemma exec_Cons_fst: "fst (exec s (e # es)) = fst (step s e) @ fst (exec (snd (step s e)) es)"
  by (simp split: prod.splits)

lemma exec_Cons_snd: "snd (exec s (e # es)) = snd (exec (snd (step s e)) es)"
  by (simp split: prod.splits)

lemma exec_inv:
  assumes "yielded s \<le> length (results s)"
  shows "yielded (snd (exec s tr)) \<le> length (results (snd (exec s tr)))
       \<and> take (yielded s) (results s) @ yields (fst (exec s tr)) =
           take (yielded (snd (exec s tr))) (results (snd (exec s tr)))
       \<and> results (snd (exec s tr)) = results s @ map toScanResult (data_events tr)
       \<and> error (snd (exec s tr)) =
           (if failure_signals tr = [] then error s else Some (last (failure_signals tr)))"
  using assms
proof (induction tr arbitrary: s)
  case Nil
  then show ?case by simp
next
  case (Cons e es)
  let ?s1 = "snd (step s e)"
  let ?s2 = "snd (exec ?s1 es)"
  have y1: "yielded ?s1 \<le> length (results ?s1)"
    by (rule step_yielded [OF Cons.prems])
  from Cons.IH [OF y1] have
    I1: "yielded ?s2 \<le> length (results ?s2)" and
    I2: "take (yielded ?s1) (results ?s1) @ yields (fst (exec ?s1 es)) =
           take (yielded ?s2) (results ?s2)" and
    I3: "results ?s2 = results ?s1 @ map toScanResult (data_events es)" and
    I4: "error ?s2 =
           (if failure_signals es = [] then error ?s1 else Some (last (failure_signals es)))"
    by blast+
  have de: "data_events (e # es) = data_events [e] @ data_events es"
    using data_events_append [of "[e]" es] by simp
  have fe: "failure_signals (e # es) = failure_signals [e] @ failure_signals es"
    using failure_signals_append [of "[e]" es] by simp
  have "take (yielded s) (results s) @ yields (fst (exec s (e # es))) =
          take (yielded ?s2) (results ?s2)"
    unfolding exec_Cons_fst yields_append
    using step_yields [OF Cons.prems, of e] I2 by (metis append_assoc)
  moreover have "results ?s2 = results s @ map toScanResult (data_events (e # es))"
    unfolding de using I3 step_results [of s e] by simp
  moreover have "error ?s2 =
      (if failure_signals (e # es) = [] then error s else Some (last (failure_signals (e # es))))"
    unfolding fe using I4 step_error [of s e] by simp
  ultimately show ?case using I1 unfolding exec_Cons_snd by simp
qed

lemma start_inv:
  assumes "exec (start fs signal) tr = (outs, s)"
  shows "yielded s \<le> length (results s)"
    and "yields outs = take (yielded s) (results s)"
    and "results s = map toScanResult (data_events tr)"
    and "error s = (if failure_signals tr = [] then None else Some (last (failure_signals tr)))"
proof -
  have y0: "yielded (start fs signal) \<le> length (results (start fs signal))"
    by (simp add: start_def)
  have r0: "results (start fs signal) = []" "yielded (start fs signal) = 0"
    "error (start fs signal) = None"
    by (simp_all add: start_def)
  have e1: "fst (exec (start fs signal) tr) = outs" "snd (exec (start fs signal) tr) = s"
    using assms by simp_all
  note inv = exec_inv [OF y0, of tr, unfolded e1 r0]
  from inv have "take 0 [] @ yields outs = take (yielded s) (results s)" by blast
  then show "yields outs = take (yielded s) (results s)" by simp
  from inv have "results s = [] @ map toScanResult (data_events tr)" by blast
  then show "results s = map toScanResult (data_events tr)" by simp
  from inv show "yielded s \<le> length (results s)" by blast
  from inv show
    "error s = (if failure_signals tr = [] then None else Some (last (failure_signals tr)))"
    by blast
qed

lemma iterate_Throw:
  assumes "Throw err \<in> set (fst (iterate s))"
  shows "length (results s) \<le> yielded s \<and> error s = Some err \<and> fst (iterate s) = [Throw err]"
  using assms by (simp add: iterate_def split: if_splits option.splits)


lemma step_Throw:
  assumes "Throw err \<in> set (fst (step s e))"
  shows "length (results s) \<le> yielded s \<and> error s = Some err \<and> fst (step s e) = [Throw err]
       \<and> results (snd (step s e)) = results s"
proof -
  have "e = Next \<or> e = Wake"
    using assms by (cases e) (simp_all split: option.splits)
  then have "fst (step s e) = fst (iterate s) \<and> results (snd (step s e)) = results s"
    using assms by (auto simp: iterate_results split: if_splits)
  then show ?thesis using assms iterate_Throw [of err s] by simp
qed









lemmas driver_eval = start_def iterate_def notify_def toScanResult_def mapGrpcError_def
  as_error_def wireAbortSignal_def ClamAVError_def ClamAVConnectionError_def
  ClamAVTimeoutError_def ClamAVValidationError_def ClamAVServiceError_def
  status_CANCELLED_def status_INVALID_ARGUMENT_def status_DEADLINE_EXCEEDED_def
  status_INTERNAL_def status_UNAVAILABLE_def

text \<open>
  Claim C4. In the multi-file driver, a recorded failure is raised to the consumer only when
  every outcome buffered so far has been yielded: at the step that raises, the results
  yielded are all the results buffered, which are the results of all the result events of
  the run so far, those received before the failure was recorded among them. Raising keeps
  the buffer, and the two steps that record a failure leave the buffer as it is.
\<close>

theorem failure_after_buffered_outcomes:
  assumes "exec (start fs signal) tr = (outs, s)"
    and "Throw err \<in> set (fst (step s e))"
  shows "yields outs = results s
       \<and> results s = map toScanResult (data_events tr)
       \<and> (tr = tr1 @ tr2 \<longrightarrow>
            take (length (data_events tr1)) (yields outs) = map toScanResult (data_events tr1))
       \<and> results (snd (step s e)) = results s
       \<and> results (snd (step s0 (OnError g))) = results s0
       \<and> results (snd (step s0 (SenderFails t))) = results s0"
proof -
  note inv = start_inv [OF assms(1)]
  from step_Throw [OF assms(2)] have full: "length (results s) \<le> yielded s"
    and keep: "results (snd (step s e)) = results s" by simp_all
  from inv(2) full have y: "yields outs = results s" by simp
  have "take (length (data_events tr1)) (yields outs) = map toScanResult (data_events tr1)"
    if "tr = tr1 @ tr2"
    unfolding y inv(3) that data_events_append by simp
  moreover have "results (snd (step s0 (OnError g))) = results s0"
    "results (snd (step s0 (SenderFails t))) = results s0"
    by (simp_all add: notify_def)
  ultimately show ?thesis using y inv(3) keep by blast
qed

theorem failure_after_buffered_outcomes_witness:
  "(let a = \<lparr>response_status = ''OK'', response_message = '''', scan_time = 0,
              response_filename = ''a.txt''\<rparr>;
        b = \<lparr>response_status = ''FOUND'', response_message = ''Eicar'', scan_time = 0,
              response_filename = ''b.txt''\<rparr>;
        err = JsError ''Error'' ''write after end'' None None;
        before = [Next, OnData a, SenderFails (ThrownError err)];
        after = [OnData b, Wake, Next];
        run = exec (start [] None) (before @ after)
    in fst (exec (start [] None) before) = []
       \<and> results (snd (exec (start [] None) before)) = [toScanResult a]
       \<and> fst run = [Yield (toScanResult a), Yield (toScanResult b)]
       \<and> fst (step (snd run) Next) = [Throw err]
       \<and> yields (fst run) = results (snd run)
       \<and> take (length (data_events before)) (yields (fst run)) = [toScanResult a]
       \<and> results (snd (step (snd run) Next)) = [toScanResult a, toScanResult b])"
proof -
  let ?a = "\<lparr>response_status = ''OK'', response_message = '''', scan_time = 0,
              response_filename = ''a.txt''\<rparr>"
  let ?b = "\<lparr>response_status = ''FOUND'', response_message = ''Eicar'', scan_time = 0,
              response_filename = ''b.txt''\<rparr>"
  let ?err = "JsError ''Error'' ''write after end'' None None"
  let ?before = "[Next, OnData ?a, SenderFails (ThrownError ?err)]"
  let ?after = "[OnData ?b, Wake, Next]"
  let ?run = "exec (start [] None) (?before @ ?after)"
  have h1: "exec (start [] None) (?before @ ?after) = (fst ?run, snd ?run)" by simp
  have p: "fst (exec (start [] None) ?before) = []"
    "results (snd (exec (start [] None) ?before)) = [toScanResult ?a]"
    by (auto simp: driver_eval)
  have o: "fst ?run = [Yield (toScanResult ?a), Yield (toScanResult ?b)]"
    by (auto simp: driver_eval)
  have t: "fst (step (snd ?run) Next) = [Throw ?err]"
    by (auto simp: driver_eval)
  then have h2: "Throw ?err \<in> set (fst (step (snd ?run) Next))" by simp
  from failure_after_buffered_outcomes [OF h1 h2, where ?tr1.0 = ?before and ?tr2.0 = ?after]
  have "yields (fst ?run) = results (snd ?run)"
    and "results (snd ?run) = map toScanResult (data_events (?before @ ?after))"
    and "take (length (data_events ?before)) (yields (fst ?run)) =
           map toScanResult (data_events ?before)"
    and "results (snd (step (snd ?run) Next)) = results (snd ?run)" by blast+
  then have "yields (fst ?run) = results (snd ?run)"
    and "take (length (data_events ?before)) (yields (fst ?run)) = [toScanResult ?a]"
    and "results (snd (step (snd ?run) Next)) = [toScanResult ?a, toScanResult ?b]" by simp_all
  with p o t show ?thesis unfolding Let_def by blast
qed

text \<open>
  Claim C5 says that the first failure recorded is the one raised. The two writes of
  \<open>state.error\<close>, in the handler of \<open>error\<close> and in the \<open>catch\<close> block of the sender,
  are unconditional. In this run the consumer has been handed one result and has not yet
  asked for the next; the sender fails, which cancels the call, and the call then reports
  the cancellation; the next request of the consumer raises the second failure.
\<close>

theorem first_failure_wins_counterexample:
  "fst (exec (start [] None)
     [Next,
      OnData \<lparr>response_status = ''OK'', response_message = '''', scan_time = 0,
              response_filename = ''a.txt''\<rparr>,
      Wake,
      SenderFails (ThrownError (JsError ''Error'' ''write after end'' None None)),
      OnError \<lparr>service_code = 1, service_details = ''Cancelled on client'',
               service_message = ''1 CANCELLED: Cancelled on client''\<rparr>,
      Next])
   = [Yield \<lparr>status = ''OK'', message = '''', scanTime = 0, result_filename = Some ''a.txt'',
             isInfected = False\<rparr>,
      Throw (JsError ''ClamAVError'' ''Cancelled on client'' (Some ''CANCELLED'') (Some 1))]
   \<and> JsError ''ClamAVError'' ''Cancelled on client'' (Some ''CANCELLED'') (Some 1)
       \<noteq> JsError ''Error'' ''write after end'' None None"
  by (auto simp: driver_eval)

text \<open>
  Claim C5, as the code has it. The driver keeps at most one failure, in \<open>state.error\<close>,
  and every failure signal overwrites it: the failure raised to the consumer is the last
  one recorded before the step that raises, and the buffered outcomes are those of the
  result events of the run, whatever failure signals occurred.
\<close>

theorem last_failure_raised:
  assumes "exec (start fs signal) tr = (outs, s)"
    and "Throw err \<in> set (fst (step s e))"
  shows "failure_signals tr \<noteq> []
       \<and> err = last (failure_signals tr)
       \<and> error s = Some err
       \<and> results (snd (step s e)) = map toScanResult (data_events tr)"
proof -
  note inv = start_inv [OF assms(1)]
  from step_Throw [OF assms(2)] have e: "error s = Some err"
    and keep: "results (snd (step s e)) = results s" by simp_all
  from inv(4) e have "failure_signals tr \<noteq> []" "err = last (failure_signals tr)"
    by (simp_all split: if_splits)
  then show ?thesis using e keep inv(3) by simp
qed

theorem last_failure_raised_witness:
  "(let g = \<lparr>service_code = 4, service_details = '''', service_message = ''Deadline exceeded''\<rparr>;
        run = exec (start [] None) [Next, SenderFails (ThrownValue ''boom''), OnError g]
    in fst run = []
       \<and> fst (step (snd run) Wake) = [Throw (ClamAVTimeoutError ''Deadline exceeded'' (Some 4))]
       \<and> failure_signals [Next, SenderFails (ThrownValue ''boom''), OnError g] =
           [JsError ''Error'' ''boom'' None None, ClamAVTimeoutError ''Deadline exceeded'' (Some 4)]
       \<and> error (snd run) = Some (ClamAVTimeoutError ''Deadline exceeded'' (Some 4)))"
proof -
  let ?g = "\<lparr>service_code = 4, service_details = '''', service_message = ''Deadline exceeded''\<rparr>"
  let ?tr = "[Next, SenderFails (ThrownValue ''boom''), OnError ?g]"
  let ?run = "exec (start [] None) ?tr"
  let ?err = "ClamAVTimeoutError ''Deadline exceeded'' (Some 4)"
  have h1: "exec (start [] None) ?tr = (fst ?run, snd ?run)" by simp
  have o: "fst ?run = []" by (auto simp: driver_eval)
  have t: "fst (step (snd ?run) Wake) = [Throw ?err]"
    by (auto simp: driver_eval)
  then have h2: "Throw ?err \<in> set (fst (step (snd ?run) Wake))" by simp
  have f: "failure_signals ?tr = [JsError ''Error'' ''boom'' None None, ?err]"
    by (auto simp: driver_eval)
  from last_failure_raised [OF h1 h2] have "error (snd ?run) = Some ?err" by blast
  with o t f show ?thesis unfolding Let_def by blast
qed



section \<open>Cancellation at the call\<close>










section \<open>Properties of the REST \<open>scanMultiple\<close>\<close>

text \<open>
  Claim C10. For every list of files, \<open>scanMultiple\<close> of the REST client hands its
  consumer exactly one result per file, in the order of the list, follows them with the
  normal end of the sequence, and raises no failure: the result of a file whose scan is
  rejected has the status \<open>ERROR\<close>, the message of the failure (the message of the error
  object, or the text of a value that is not an error object), the scan time 0, no file
  name and \<open>isInfected\<close> false, and the result of any other file is the one its scan
  gave. The streaming driver differs: it raises a recorded failure, as in the run where the
  sender fails before the first request of the consumer.
\<close>

theorem rest_scanMultiple_results:
  "length (yields (rest_scanMultiple globalFetch client fs timeout_opt signal)) = length fs
   \<and> (\<forall>i < length fs.
         (case snd (rest_scanFile globalFetch client (data (fs ! i))
                      (Some (entry_filename (fs ! i))) timeout_opt signal) of
            Inr v \<Rightarrow> yields (rest_scanMultiple globalFetch client fs timeout_opt signal) ! i = v
          | Inl err \<Rightarrow>
              yields (rest_scanMultiple globalFetch client fs timeout_opt signal) ! i =
                \<lparr>status = ''ERROR'',
                 message = (case err of
                              ClamAVInstance e \<Rightarrow> err_message e
                            | ErrorObject e \<Rightarrow> err_message e
                            | OtherValue v \<Rightarrow> v),
                 scanTime = 0, result_filename = None, isInfected = False\<rparr>))
   \<and> rest_scanMultiple globalFetch client fs timeout_opt signal =
       map Yield (yields (rest_scanMultiple globalFetch client fs timeout_opt signal)) @ [Return]
   \<and> Throw failure \<notin> set (rest_scanMultiple globalFetch client fs timeout_opt signal)
   \<and> fst (exec (start fs grpc_signal) [SenderFails (ThrownError failure), Next]) = [Throw failure]"
proof -
  let ?scan = "\<lambda>f. snd (rest_scanFile globalFetch client (data f)
                              (Some (entry_filename f)) timeout_opt signal)"
  let ?out = "rest_scanMultiple globalFetch client fs timeout_opt signal"
  have out: "?out = map (\<lambda>f. Yield (settled_result (?scan f))) fs @ [Return]"
    by (simp add: rest_scanMultiple_def comp_def)
  have ym: "yields (map (\<lambda>x. Yield (g x)) xs) = map g xs" for g :: "'a \<Rightarrow> scan_result" and xs
    by (induction xs) simp_all
  have y: "yields ?out = map (\<lambda>f. settled_result (?scan f)) fs"
    unfolding out yields_append ym by simp
  have each: "case ?scan (fs ! i) of
            Inr v \<Rightarrow> yields ?out ! i = v
          | Inl err \<Rightarrow>
              yields ?out ! i =
                \<lparr>status = ''ERROR'',
                 message = (case err of
                              ClamAVInstance e \<Rightarrow> err_message e
                            | ErrorObject e \<Rightarrow> err_message e
                            | OtherValue v \<Rightarrow> v),
                 scanTime = 0, result_filename = None, isInfected = False\<rparr>"
    if "i < length fs" for i
    using that
    by (cases "?scan (fs ! i)") (simp_all add: y settled_result_def reason_message_def)
  have shape: "?out = map Yield (yields ?out) @ [Return]"
    unfolding y unfolding out by (simp add: comp_def)
  have "Throw failure \<notin> set ?out"
    unfolding out by auto
  moreover have "fst (exec (start fs grpc_signal) [SenderFails (ThrownError failure), Next]) =
      [Throw failure]"
    by (simp add: start_def iterate_def notify_def as_error_def)
  ultimately show ?thesis using y each shape by simp
qed

theorem rest_scanMultiple_results_witness:
  "(let gf = (\<lambda>request.
                if body request = FormFile [1] ''a.txt''
                then Fulfilled \<lparr>ok = True, http_status = 200,
                       json = Inr \<lparr>body_status = Some ''OK'', body_message = Some '''',
                                    body_time = Some 0\<rparr>\<rparr>
                else if body request = FormFile [3] ''c.txt''
                then Fulfilled \<lparr>ok = True, http_status = 200,
                       json = Inl (ErrorObject (JsError ''SyntaxError'' ''Unexpected token'' None None))\<rparr>
                else Rejected (ErrorObject (JsError ''TypeError'' ''fetch failed'' None None)));
        client = \<lparr>baseUrl = ''http://localhost:6000'', timeout = 300000\<rparr>;
        fs = [\<lparr>data = [2], entry_filename = ''b.txt''\<rparr>, \<lparr>data = [1], entry_filename = ''a.txt''\<rparr>,
              \<lparr>data = [3], entry_filename = ''c.txt''\<rparr>]
    in (2::nat) < length fs
       \<and> snd (rest_scanFile gf client [2] (Some ''b.txt'') None None) =
           Inl (ClamAVInstance (ClamAVConnectionError ''Failed to connect to ClamAV API''))
       \<and> snd (rest_scanFile gf client [3] (Some ''c.txt'') None None) =
           Inl (ErrorObject (JsError ''SyntaxError'' ''Unexpected token'' None None))
       \<and> rest_scanMultiple gf client fs None None =
         [Yield \<lparr>status = ''ERROR'', message = ''Failed to connect to ClamAV API'', scanTime = 0,
                 result_filename = None, isInfected = False\<rparr>,
          Yield \<lparr>status = ''OK'', message = '''', scanTime = 0, result_filename = Some ''a.txt'',
                 isInfected = False\<rparr>,
          Yield \<lparr>status = ''ERROR'', message = ''Unexpected token'', scanTime = 0,
                 result_filename = None, isInfected = False\<rparr>,
          Return]
       \<and> length (yields (rest_scanMultiple gf client fs None None)) = length fs)"
proof -
  let ?gf = "\<lambda>request.
                if body request = FormFile [1] ''a.txt''
                then Fulfilled \<lparr>ok = True, http_status = 200,
                       json = Inr \<lparr>body_status = Some ''OK'', body_message = Some '''',
                                    body_time = Some 0\<rparr>\<rparr>
                else if body request = FormFile [3] ''c.txt''
                then Fulfilled \<lparr>ok = True, http_status = 200,
                       json = Inl (ErrorObject (JsError ''SyntaxError'' ''Unexpected token'' None None))\<rparr>
                else Rejected (ErrorObject (JsError ''TypeError'' ''fetch failed'' None None))"
  let ?client = "\<lparr>baseUrl = ''http://localhost:6000'', timeout = 300000\<rparr>"
  let ?fs = "[\<lparr>data = [2], entry_filename = ''b.txt''\<rparr>, \<lparr>data = [1], entry_filename = ''a.txt''\<rparr>,
              \<lparr>data = [3], entry_filename = ''c.txt''\<rparr>]"
  let ?ys = "yields (rest_scanMultiple ?gf ?client ?fs None None)"
  have b: "snd (rest_scanFile ?gf ?client [2] (Some ''b.txt'') None None) =
      Inl (ClamAVInstance (ClamAVConnectionError ''Failed to connect to ClamAV API''))"
    by (simp add: rest_scanFile_def rest_fetch_def Let_def is_ClamAVError_def)
  have a: "snd (rest_scanFile ?gf ?client [1] (Some ''a.txt'') None None) =
      Inr \<lparr>status = ''OK'', message = '''', scanTime = 0, result_filename = Some ''a.txt'',
           isInfected = False\<rparr>"
    by (simp add: rest_scanFile_def rest_fetch_def Let_def parseScanResponse_def
          handleErrorStatus_def)
  have c: "snd (rest_scanFile ?gf ?client [3] (Some ''c.txt'') None None) =
      Inl (ErrorObject (JsError ''SyntaxError'' ''Unexpected token'' None None))"
    by (simp add: rest_scanFile_def rest_fetch_def Let_def parseScanResponse_def)
  note T = rest_scanMultiple_results [where globalFetch = ?gf and client = ?client and fs = ?fs
      and timeout_opt = None and signal = None]
  from T have len: "length ?ys = length ?fs"
    by blast
  from T have idx: "\<forall>i < length ?fs.
         (case snd (rest_scanFile ?gf ?client (data (?fs ! i))
                      (Some (entry_filename (?fs ! i))) None None) of
            Inr v \<Rightarrow> ?ys ! i = v
          | Inl err \<Rightarrow>
              ?ys ! i =
                \<lparr>status = ''ERROR'',
                 message = (case err of
                              ClamAVInstance e \<Rightarrow> err_message e
                            | ErrorObject e \<Rightarrow> err_message e
                            | OtherValue v \<Rightarrow> v),
                 scanTime = 0, result_filename = None, isInfected = False\<rparr>)"
    by blast
  from idx [rule_format, of 0] b
  have y0: "?ys ! 0 =
      \<lparr>status = ''ERROR'', message = ''Failed to connect to ClamAV API'', scanTime = 0,
       result_filename = None, isInfected = False\<rparr>"
    by (simp add: ClamAVConnectionError_def)
  from idx [rule_format, of 1] a
  have y1: "?ys ! 1 =
      \<lparr>status = ''OK'', message = '''', scanTime = 0, result_filename = Some ''a.txt'',
       isInfected = False\<rparr>"
    by simp
  from idx [rule_format, of 2] c
  have y2: "?ys ! 2 =
      \<lparr>status = ''ERROR'', message = ''Unexpected token'', scanTime = 0,
       result_filename = None, isInfected = False\<rparr>"
    by simp
  from len obtain u v w where uv: "?ys = [u, v, w]"
    by (auto simp: length_Suc_conv)
  from T have "rest_scanMultiple ?gf ?client ?fs None None = map Yield ?ys @ [Return]"
    by blast
  with uv y0 y1 y2 len b c show ?thesis unfolding Let_def by simp
qed

end
